theory Spec2Isabelle
  imports Complex_Main "HOL-Library.Word"
begin

section \<open>The kernel interface header \<^verbatim>\<open>ChibiOS.h\<close>\<close>

text \<open>
  The header declares the tick frequency, six time-conversion macros, the integer aliases
  and the descriptor structures of a small kernel, and the prototypes of its timer and
  thread services. The macros are embedded as functions on 32-bit words: the target is a
  32-bit microcontroller, where \<^verbatim>\<open>uint32_t\<close> and \<^verbatim>\<open>unsigned long\<close>
  (the type of the \<^verbatim>\<open>UL\<close> literals) are both 32 bits wide, so every intermediate
  result of a macro wraps modulo \<open>2 ^ 32\<close>.
\<close>

subsection \<open>Integer aliases\<close>

text \<open>
  \<^verbatim>\<open>typedef uint32_t systime_t; typedef uint32_t tprio_t; typedef uint32_t msg_t;\<close>
\<close>

type_synonym uint8_t = "8 word"
type_synonym uint32_t = "32 word"
type_synonym systime_t = uint32_t
type_synonym tprio_t = uint32_t
type_synonym msg_t = uint32_t

subsection \<open>Tick frequency and time conversion macros\<close>

text \<open>
  \<^verbatim>\<open>#define CH_CFG_ST_FREQUENCY 100\<close>: an \<^verbatim>\<open>int\<close> literal. The forward macros cast
  it to \<^verbatim>\<open>uint32_t\<close>; in the reverse macros the usual arithmetic conversions turn it
  into the unsigned type of the other operand. Both are \<open>word_of_int\<close>.
\<close>

definition CH_CFG_ST_FREQUENCY :: int where
  "CH_CFG_ST_FREQUENCY = 100"

text \<open>\<^verbatim>\<open>((systime_t)((uint32_t)(sec) * (uint32_t)CH_CFG_ST_FREQUENCY))\<close>\<close>

definition S2ST :: "uint32_t \<Rightarrow> systime_t" where
  "S2ST sec = sec * word_of_int CH_CFG_ST_FREQUENCY"

text \<open>
  \<^verbatim>\<open>((systime_t)(((((uint32_t)(msec)) * ((uint32_t)CH_CFG_ST_FREQUENCY)) + 999UL) / 1000UL))\<close>
\<close>

definition MS2ST :: "uint32_t \<Rightarrow> systime_t" where
  "MS2ST msec = (msec * word_of_int CH_CFG_ST_FREQUENCY + 999) div 1000"

text \<open>
  \<^verbatim>\<open>((systime_t)(((((uint32_t)(usec)) * ((uint32_t)CH_CFG_ST_FREQUENCY)) + 999999UL) / 1000000UL))\<close>
\<close>

definition US2ST :: "uint32_t \<Rightarrow> systime_t" where
  "US2ST usec = (usec * word_of_int CH_CFG_ST_FREQUENCY + 999999) div 1000000"

text \<open>\<^verbatim>\<open>(((n) + CH_CFG_ST_FREQUENCY - 1UL) / CH_CFG_ST_FREQUENCY)\<close>\<close>

definition ST2S :: "systime_t \<Rightarrow> uint32_t" where
  "ST2S n = (n + word_of_int CH_CFG_ST_FREQUENCY - 1) div word_of_int CH_CFG_ST_FREQUENCY"

text \<open>\<^verbatim>\<open>(((n) * 1000UL + CH_CFG_ST_FREQUENCY - 1UL) / CH_CFG_ST_FREQUENCY)\<close>\<close>

definition ST2MS :: "systime_t \<Rightarrow> uint32_t" where
  "ST2MS n =
     (n * 1000 + word_of_int CH_CFG_ST_FREQUENCY - 1) div word_of_int CH_CFG_ST_FREQUENCY"

text \<open>\<^verbatim>\<open>(((n) * 1000000UL + CH_CFG_ST_FREQUENCY - 1UL) / CH_CFG_ST_FREQUENCY)\<close>\<close>

definition ST2US :: "systime_t \<Rightarrow> uint32_t" where
  "ST2US n =
     (n * 1000000 + word_of_int CH_CFG_ST_FREQUENCY - 1) div word_of_int CH_CFG_ST_FREQUENCY"

subsection \<open>Declared data types\<close>

text \<open>
  The header's type declarations of fixed size, as data: a C type is an unsigned integer
  of a width in bits, an array, or a structure with named members.
  \<^verbatim>\<open>typedef struct { uint8_t data[64]; } thread_t;\<close> and the three integer
  aliases are entered in \<open>header_typedefs\<close> under their names.
\<close>

datatype ctype =
    UInt nat
  | Array ctype nat
  | Struct "(string \<times> ctype) list"

definition header_typedefs :: "(string \<times> ctype) list" where
  "header_typedefs =
     [(''thread_t'', Struct [(''data'', Array (UInt 8) 64)]),
      (''systime_t'', UInt 32),
      (''tprio_t'', UInt 32),
      (''msg_t'', UInt 32)]"

text \<open>
  Size and alignment follow the C rules for objects: an unsigned integer of \<open>w\<close> bits
  (a multiple of 8) occupies \<open>w div 8\<close> bytes and is aligned to its size; an array is
  its elements in sequence; a structure places each member at the next offset that is a
  multiple of the member's alignment and is padded at the end to a multiple of its own
  alignment, the largest among its members.
\<close>

definition round_up :: "nat \<Rightarrow> nat \<Rightarrow> nat" where
  "round_up n a = ((n + a - 1) div a) * a"

fun alignof :: "ctype \<Rightarrow> nat" where
  "alignof (UInt w) = w div 8"
| "alignof (Array t n) = alignof t"
| "alignof (Struct ms) = fold max (map (\<lambda>m. alignof (snd m)) ms) 1"

fun sizeof :: "ctype \<Rightarrow> nat" where
  "sizeof (UInt w) = w div 8"
| "sizeof (Array t n) = n * sizeof t"
| "sizeof (Struct ms) =
     round_up (fold (\<lambda>m off. round_up off (alignof (snd m)) + sizeof (snd m)) ms 0)
       (alignof (Struct ms))"

text \<open>The least and the greatest value of an integer type; other types have none.\<close>

fun value_range :: "ctype \<Rightarrow> (nat \<times> nat) option" where
  "value_range (UInt w) = Some (0, 2 ^ w - 1)"
| "value_range (Array t n) = None"
| "value_range (Struct ms) = None"

subsection \<open>Virtual timers\<close>

text \<open>
  \<^verbatim>\<open>typedef void (*vtfunc_t)(void *p);\<close> A callback is known by its code address and
  its parameter by the address it holds; a timer is known by the address of its
  descriptor, the \<^verbatim>\<open>virtual_timer_t *\<close> handed to the timer services.
\<close>

type_synonym vtfunc_t = nat
type_synonym void_ptr = nat
type_synonym vt_ref = nat

text \<open>
  \<^verbatim>\<open>struct ch_virtual_timer { virtual_timer_t *vt_next; virtual_timer_t *vt_prev;
  systime_t vt_delta; vtfunc_t vt_func; void *vt_par; };\<close>
  The two links are the position of the descriptor in the list of armed timers: the
  queue is the list of the linked descriptors, head first, each with its address.
\<close>

record ch_virtual_timer =
  vt_delta :: systime_t
  vt_func :: vtfunc_t
  vt_par :: void_ptr

type_synonym vt_queue = "(vt_ref \<times> ch_virtual_timer) list"

section \<open>The timer services\<close>

text \<open>
  The header declares \<^verbatim>\<open>setTimer\<close> and \<^verbatim>\<open>resetTimer\<close> and gives no body
  for them or for the tick handler that services the queue. Their behaviour is taken
  from the specification of the virtual timer queue.
\<close>

text \<open>
  Modelled from the spec: the kernel state the timer services work on, which the header
  does not declare. It is the process-wide delta queue of armed timers, and, for
  observation, the callbacks invoked so far, oldest first, each with the timer it
  belonged to and the parameter it received.
\<close>

record kernel =
  vtlist :: vt_queue
  fired :: "(vt_ref \<times> vtfunc_t \<times> void_ptr) list"

text \<open>
  Modelled from the spec: the insertion walk of \<^verbatim>\<open>setTimer\<close>, whose body is missing.
  ``Inserts by walking from the head, subtracting each visited node's delta from delay
  until the insertion point is found (delay becomes the new node's delta-to-previous;
  the following node's delta is reduced by the inserted node's absolute position)'';
  ``delta-queue insertion places new equal-deadline timers after existing ones''. The
  walk therefore passes every node whose delta is at most the delay left, and the node
  that follows the new one loses the new node's delta, which keeps its deadline.
\<close>

fun vt_insert ::
  "vt_ref \<Rightarrow> systime_t \<Rightarrow> vtfunc_t \<Rightarrow> void_ptr \<Rightarrow> vt_queue \<Rightarrow> vt_queue" where
  "vt_insert vtp delay vtfunc par [] =
     [(vtp, \<lparr>vt_delta = delay, vt_func = vtfunc, vt_par = par\<rparr>)]"
| "vt_insert vtp delay vtfunc par ((p, u) # rest) =
     (if vt_delta u \<le> delay
      then (p, u) # vt_insert vtp (delay - vt_delta u) vtfunc par rest
      else (vtp, \<lparr>vt_delta = delay, vt_func = vtfunc, vt_par = par\<rparr>)
             # (p, u\<lparr>vt_delta := vt_delta u - delay\<rparr>) # rest)"

text \<open>
  Modelled from the spec: the unlinking done by \<^verbatim>\<open>resetTimer\<close>, whose body is
  missing. ``Cancels an armed timer; no-op if not armed. Removes it from the linked list,
  propagating its delta onto the following node. No callback invoked.''
\<close>

fun vt_remove :: "vt_ref \<Rightarrow> vt_queue \<Rightarrow> vt_queue" where
  "vt_remove vtp [] = []"
| "vt_remove vtp [(p, u)] = (if p = vtp then [] else [(p, u)])"
| "vt_remove vtp ((p, u) # (p', u') # rest) =
     (if p = vtp then (p', u'\<lparr>vt_delta := vt_delta u' + vt_delta u\<rparr>) # rest
      else (p, u) # vt_remove vtp ((p', u') # rest))"

text \<open>
  Modelled from the spec: \<^verbatim>\<open>void resetTimer(virtual_timer_t *vtp)\<close>, declared in the
  header without a body.
\<close>

definition resetTimer :: "vt_ref \<Rightarrow> kernel \<Rightarrow> kernel" where
  "resetTimer vtp k = k\<lparr>vtlist := vt_remove vtp (vtlist k)\<rparr>"

text \<open>
  Modelled from the spec: \<^verbatim>\<open>int setTimer(virtual_timer_t *vtp, systime_t delay,
  vtfunc_t vtfunc, void *par)\<close>, declared in the header without a body. Arming a timer
  that is already armed is ``detach-then-insert''. The specification gives no meaning to
  the integer result, so only the effect on the kernel is modelled; a delay of zero is
  inserted like any other.
\<close>

definition setTimer ::
  "vt_ref \<Rightarrow> systime_t \<Rightarrow> vtfunc_t \<Rightarrow> void_ptr \<Rightarrow> kernel \<Rightarrow> kernel" where
  "setTimer vtp delay vtfunc par k =
     k\<lparr>vtlist := vt_insert vtp delay vtfunc par (vt_remove vtp (vtlist k))\<rparr>"

text \<open>
  Modelled from the spec: the firing loop of the tick handler, which is not in the
  header. ``While the head's delta has reached zero, detach it, invoke its callback with
  its parameter, and promote the new head.'' The callback is opaque: its invocation is
  recorded, and it does not itself arm or cancel timers.
\<close>

fun vt_fire :: "kernel \<Rightarrow> vt_queue \<Rightarrow> kernel" where
  "vt_fire k [] = k\<lparr>vtlist := []\<rparr>"
| "vt_fire k ((p, u) # rest) =
     (if vt_delta u = 0
      then vt_fire (k\<lparr>fired := fired k @ [(p, vt_func u, vt_par u)]\<rparr>) rest
      else k\<lparr>vtlist := (p, u) # rest\<rparr>)"

text \<open>
  Modelled from the spec: the tick advance, run once per periodic interrupt, which is not
  in the header. ``Decrement the head's delta by one tick''; then the firing loop. The
  decrement is the one of \<^verbatim>\<open>systime_t\<close>.
\<close>

definition tick :: "kernel \<Rightarrow> kernel" where
  "tick k =
     (case vtlist k of
        [] \<Rightarrow> k
      | (p, u) # rest \<Rightarrow> vt_fire k ((p, u\<lparr>vt_delta := vt_delta u - 1\<rparr>) # rest))"

subsection \<open>Histories of the timer queue\<close>

text \<open>
  What can happen to the queue: a tick, or a call of one of the two services. A history
  is a list of such events, run first to last.
\<close>

datatype event = Tick | SetTimer vt_ref systime_t vtfunc_t void_ptr | ResetTimer vt_ref

fun step :: "event \<Rightarrow> kernel \<Rightarrow> kernel" where
  "step Tick k = tick k"
| "step (SetTimer vtp delay vtfunc par) k = setTimer vtp delay vtfunc par k"
| "step (ResetTimer vtp) k = resetTimer vtp k"

fun run :: "event list \<Rightarrow> kernel \<Rightarrow> kernel" where
  "run [] k = k"
| "run (e # es) k = run es (step e k)"

text \<open>Whether an event is a service call on the timer \<open>v\<close>.\<close>

fun operates_on :: "vt_ref \<Rightarrow> event \<Rightarrow> bool" where
  "operates_on v Tick = False"
| "operates_on v (SetTimer vtp delay vtfunc par) = (vtp = v)"
| "operates_on v (ResetTimer vtp) = (vtp = v)"

text \<open>
  The ticks left until an armed timer is due: ``summing deltas from head to any node
  yields that node's absolute remaining ticks''. \<open>None\<close> for a timer that is not armed.
\<close>

fun vt_remaining :: "vt_ref \<Rightarrow> vt_queue \<Rightarrow> nat option" where
  "vt_remaining v [] = None"
| "vt_remaining v ((p, u) # rest) =
     (if p = v then Some (unat (vt_delta u))
      else map_option (\<lambda>r. unat (vt_delta u) + r) (vt_remaining v rest))"

text \<open>
  In a sequence of fired timers, \<open>a\<close> fires before \<open>b\<close>: if \<open>b\<close> occurs at all,
  \<open>a\<close> occurs ahead of its first occurrence.
\<close>

definition fires_before :: "vt_ref \<Rightarrow> vt_ref \<Rightarrow> vt_ref list \<Rightarrow> bool" where
  "fires_before a b trace =
     (if b \<in> set trace then a \<in> set (takeWhile (\<lambda>x. x \<noteq> b) trace) else True)"

text \<open>The timers fired between the state \<open>k\<close> and a later state \<open>k'\<close>, in order.\<close>

definition fired_since :: "kernel \<Rightarrow> kernel \<Rightarrow> vt_ref list" where
  "fired_since k k' = map fst (drop (length (fired k)) (fired k'))"

text \<open>
  An example state: timer 7 is due at the next tick and timer 1 two ticks after it, and
  one callback has been invoked so far.
\<close>

definition two_armed :: kernel where
  "two_armed =
     \<lparr>vtlist = [(7, \<lparr>vt_delta = 1, vt_func = 70, vt_par = 700\<rparr>),
                (1, \<lparr>vt_delta = 2, vt_func = 10, vt_par = 100\<rparr>)],
      fired = [(9, 90, 900)]\<rparr>"

section \<open>Arithmetic of the conversion macros\<close>

subsection \<open>The macros read as natural numbers\<close>

text \<open>
  Each macro is first rewritten as arithmetic on \<open>nat\<close> with every wrap-around explicit;
  the later results only use these forms.
\<close>

lemma unat_S2ST: "unat (S2ST sec) = (unat sec * 100) mod 2 ^ 32"
  by (simp add: S2ST_def CH_CFG_ST_FREQUENCY_def unat_word_ariths)

lemma unat_MS2ST: "unat (MS2ST ms) = ((unat ms * 100) mod 2 ^ 32 + 999) mod 2 ^ 32 div 1000"
  by (simp add: MS2ST_def CH_CFG_ST_FREQUENCY_def unat_word_ariths unat_div)

lemma unat_US2ST: "unat (US2ST ms) = ((unat ms * 100) mod 2 ^ 32 + 999999) mod 2 ^ 32 div 1000000"
  by (simp add: US2ST_def CH_CFG_ST_FREQUENCY_def unat_word_ariths unat_div)

lemma unat_ST2S: "unat (ST2S n) = (99 + unat n) mod 2 ^ 32 div 100"
proof -
  have "n + 100 - 1 = n + 99" by simp
  then show ?thesis
    by (simp add: ST2S_def CH_CFG_ST_FREQUENCY_def unat_word_ariths unat_div)
qed

lemma unat_ST2MS: "unat (ST2MS n) = (99 + (unat n * 1000) mod 2 ^ 32) mod 2 ^ 32 div 100"
proof -
  have "n * 1000 + 100 - 1 = n * 1000 + 99" by simp
  then show ?thesis
    by (simp add: ST2MS_def CH_CFG_ST_FREQUENCY_def unat_word_ariths unat_div)
qed

lemma unat_ST2US: "unat (ST2US n) = (99 + (unat n * 1000000) mod 2 ^ 32) mod 2 ^ 32 div 100"
proof -
  have "n * 1000000 + 100 - 1 = n * 1000000 + 99" by simp
  then show ?thesis
    by (simp add: ST2US_def CH_CFG_ST_FREQUENCY_def unat_word_ariths unat_div)
qed

lemma S2ST_exact: "unat sec * 100 < 2 ^ 32 \<Longrightarrow> unat (S2ST sec) = unat sec * 100"
  unfolding unat_S2ST by (simp only: mod_less)

lemma MS2ST_exact:
  assumes "unat ms * 100 + 999 < 2 ^ 32"
  shows "unat (MS2ST ms) = (unat ms * 100 + 999) div 1000"
proof -
  from assms have "unat ms * 100 < 2 ^ 32" by linarith
  with assms show ?thesis unfolding unat_MS2ST by (simp only: mod_less)
qed

lemma US2ST_exact:
  assumes "unat us * 100 + 999999 < 2 ^ 32"
  shows "unat (US2ST us) = (unat us * 100 + 999999) div 1000000"
proof -
  from assms have "unat us * 100 < 2 ^ 32" by linarith
  with assms show ?thesis unfolding unat_US2ST by (simp only: mod_less)
qed

lemma ST2S_exact:
  assumes "unat n + 99 < 2 ^ 32"
  shows "unat (ST2S n) = (unat n + 99) div 100"
  unfolding unat_ST2S add.commute [of 99] using assms by (simp only: mod_less)

lemma ST2MS_exact:
  assumes "unat n * 1000 + 99 < 2 ^ 32"
  shows "unat (ST2MS n) = (unat n * 1000 + 99) div 100"
proof -
  from assms have "unat n * 1000 < 2 ^ 32" by linarith
  with assms show ?thesis unfolding unat_ST2MS add.commute [of 99] by (simp only: mod_less)
qed

lemma ST2US_exact:
  assumes "unat n * 1000000 + 99 < 2 ^ 32"
  shows "unat (ST2US n) = (unat n * 1000000 + 99) div 100"
proof -
  from assms have "unat n * 1000000 < 2 ^ 32" by linarith
  with assms show ?thesis unfolding unat_ST2US add.commute [of 99] by (simp only: mod_less)
qed

subsection \<open>Rounding up by adding the divisor minus one\<close>

text \<open>
  The idiom \<open>(a + (b - 1)) div b\<close> is the ceiling of the exact quotient \<open>a / b\<close>.
\<close>

lemma add_pred_div_eq_ceiling:
  assumes b: "0 < b"
  shows "int ((a + (b - 1)) div b) = \<lceil>real a / real b\<rceil>"
proof -
  define z where "z = (a + (b - 1)) div b"
  have "z * b \<le> a + (b - 1)"
    by (simp add: z_def)
  then have "z * b < a + b"
    using b by linarith
  then have "real (z * b) < real (a + b)"
    by (simp only: of_nat_less_iff)
  then have lo: "real z * real b - real b < real a"
    by simp
  have "a + (b - 1) < b + z * b"
    unfolding z_def using b by (rule dividend_less_div_times)
  then have "a \<le> z * b"
    using b by linarith
  then have "real a \<le> real (z * b)"
    by (simp only: of_nat_le_iff)
  then have hi: "real a \<le> real z * real b"
    by simp
  have rb: "0 < real b"
    using b by simp
  have "real_of_int (int z) - 1 < real a / real b"
    using lo rb by (simp add: field_simps)
  moreover have "real a / real b \<le> real_of_int (int z)"
    using hi rb by (simp add: field_simps)
  ultimately have "\<lceil>real a / real b\<rceil> = int z"
    by (rule ceiling_unique)
  then show ?thesis
    by (simp add: z_def)
qed

subsection \<open>Bounds used when the forward and the reverse direction are composed\<close>

lemma MS2ST_le: "unat (MS2ST ms) \<le> 4294967"
proof -
  define x where "x = ((unat ms * 100) mod 2 ^ 32 + 999) mod 2 ^ 32"
  have "x < 4294967296"
    unfolding x_def by simp
  then have "x div 1000 \<le> 4294967" by linarith
  then show ?thesis unfolding unat_MS2ST x_def .
qed

lemma MS2ST_back_to_ms:
  "unat (MS2ST ms * 1000 div word_of_int CH_CFG_ST_FREQUENCY) = 10 * unat (MS2ST ms)"
proof -
  define t where "t = unat (MS2ST ms)"
  have "t \<le> 4294967" unfolding t_def by (rule MS2ST_le)
  then have small: "t * 1000 < 2 ^ 32" by simp
  have "unat (MS2ST ms * 1000) = t * 1000 mod 2 ^ 32"
    by (simp add: unat_word_ariths t_def)
  also have "\<dots> = t * 1000" using small by (rule mod_less)
  finally have "unat (MS2ST ms * 1000 div word_of_int CH_CFG_ST_FREQUENCY) = t * 1000 div 100"
    by (simp add: CH_CFG_ST_FREQUENCY_def unat_div)
  also have "\<dots> = 10 * t" by linarith
  finally show ?thesis unfolding t_def .
qed

text \<open>
  Once \<open>ms * 100 + 999\<close> no longer fits in 32 bits the tick count is too small: either
  the sum has just wrapped to a value below 1000 and the macro yields 0, or \<open>ms\<close> is
  beyond ten times the largest tick count the macro can yield at all.
\<close>

lemma MS2ST_overflow:
  assumes "2 ^ 32 \<le> unat ms * 100 + 999"
  shows "10 * unat (MS2ST ms) < unat ms"
proof (cases "unat ms \<le> 42949670")
  case True
  have p: "(2::nat) ^ 32 = 4294967296" by simp
  define y where "y = unat ms * 100"
  from True have y1: "y < 4294967296" unfolding y_def by linarith
  from assms have y2: "4294967296 \<le> y + 999" unfolding y_def p .
  from True have y3: "y + 999 < 4294967296 + 1000" unfolding y_def by linarith
  have "(y + 999) mod 4294967296 = y + 999 - 4294967296"
    using y2 y3 by (simp add: mod_if)
  also have "\<dots> < 1000" using y3 y2 by linarith
  finally have "(y + 999) mod 4294967296 div 1000 = 0" by (rule div_less)
  moreover have "y mod 4294967296 = y" using y1 by (rule mod_less)
  ultimately have "unat (MS2ST ms) = 0"
    unfolding unat_MS2ST p y_def by (simp only:)
  moreover from assms have "0 < unat ms" unfolding p by linarith
  ultimately show ?thesis by linarith
next
  case False
  have "unat (MS2ST ms) \<le> 4294967" by (rule MS2ST_le)
  with False show ?thesis by linarith
qed

section \<open>Properties of the time conversions\<close>

subsection \<open>The ceiling property of the millisecond conversion\<close>

text \<open>
  C1, as stated: for every 32-bit \<open>ms\<close>, \<open>MS2ST(ms) * 1000 / FREQUENCY \<ge> ms\<close>, all
  in 32-bit arithmetic. This fails at \<open>ms = 42949663\<close>: \<open>ms * 100 = 4294966300\<close>
  still fits, adding 999 wraps to 3, and the macro yields 0 ticks.
\<close>

theorem MS2ST_under_converts_at_42949663:
  "\<not> ((42949663 :: uint32_t) \<le> MS2ST 42949663 * 1000 div word_of_int CH_CFG_ST_FREQUENCY)"
  by (simp add: MS2ST_def CH_CFG_ST_FREQUENCY_def)

text \<open>
  C1, amended: \<open>MS2ST(ms) * 1000 / FREQUENCY \<ge> ms\<close> holds for exactly those \<open>ms\<close>
  whose intermediate sum \<open>ms * 100 + 999\<close> fits in 32 bits, that is for
  \<open>ms \<le> 42949662\<close>, and for no larger one.
\<close>

theorem MS2ST_never_under_converts_in_range:
  "ms \<le> MS2ST ms * 1000 div word_of_int CH_CFG_ST_FREQUENCY
     \<longleftrightarrow> unat ms * 100 + 999 < 2 ^ 32"
proof
  assume le: "ms \<le> MS2ST ms * 1000 div word_of_int CH_CFG_ST_FREQUENCY"
  show "unat ms * 100 + 999 < 2 ^ 32"
  proof (rule ccontr)
    assume "\<not> unat ms * 100 + 999 < 2 ^ 32"
    then have "2 ^ 32 \<le> unat ms * 100 + 999" by (simp only: not_less)
    then have "10 * unat (MS2ST ms) < unat ms" by (rule MS2ST_overflow)
    moreover from le have "unat ms \<le> 10 * unat (MS2ST ms)"
      by (simp only: word_le_nat_alt MS2ST_back_to_ms)
    ultimately show False by linarith
  qed
next
  assume r: "unat ms * 100 + 999 < 2 ^ 32"
  define t where "t = (unat ms * 100 + 999) div 1000"
  have t: "unat (MS2ST ms) = t"
    unfolding t_def using r by (rule MS2ST_exact)
  have "unat ms * 100 + 999 < 1000 + t * 1000"
    unfolding t_def by (rule dividend_less_div_times) simp
  then have "unat ms \<le> 10 * t" by linarith
  then show "ms \<le> MS2ST ms * 1000 div word_of_int CH_CFG_ST_FREQUENCY"
    by (simp only: word_le_nat_alt MS2ST_back_to_ms t)
qed

theorem MS2ST_never_under_converts_in_range_witness:
  "unat (42949662 :: uint32_t) * 100 + 999 < 2 ^ 32
   \<and> (42949662 :: uint32_t) \<le> MS2ST 42949662 * 1000 div word_of_int CH_CFG_ST_FREQUENCY"
proof -
  have h: "unat (42949662 :: uint32_t) * 100 + 999 < 2 ^ 32" by simp
  from h MS2ST_never_under_converts_in_range [of 42949662] show ?thesis by (simp only: simp_thms)
qed

subsection \<open>Forward conversions\<close>

text \<open>
  C2: for every input whose intermediate results fit in 32 bits, the forward conversions
  are the exact ceiling: \<open>S2ST(sec) = sec * 100\<close>,
  \<open>MS2ST(ms) = ceil(ms * 100 / 1000)\<close> and \<open>US2ST(us) = ceil(us * 100 / 1000000)\<close>;
  in particular \<open>MS2ST(1) = 1\<close>. The ceiling is the one of the real quotient.
\<close>

theorem forward_conversions_exact_ceiling:
  "(unat sec * 100 < 2 ^ 32 \<longrightarrow> unat (S2ST sec) = unat sec * 100)
   \<and> (unat ms * 100 + 999 < 2 ^ 32 \<longrightarrow>
        int (unat (MS2ST ms)) = \<lceil>real (unat ms) * 100 / 1000\<rceil>)
   \<and> (unat us * 100 + 999999 < 2 ^ 32 \<longrightarrow>
        int (unat (US2ST us)) = \<lceil>real (unat us) * 100 / 1000000\<rceil>)
   \<and> MS2ST 1 = 1"
proof (intro conjI impI)
  assume "unat sec * 100 < 2 ^ 32"
  then show "unat (S2ST sec) = unat sec * 100" by (rule S2ST_exact)
next
  assume "unat ms * 100 + 999 < 2 ^ 32"
  then have "unat (MS2ST ms) = (unat ms * 100 + (1000 - 1)) div 1000"
    by (simp add: MS2ST_exact)
  then have "int (unat (MS2ST ms)) = \<lceil>real (unat ms * 100) / real 1000\<rceil>"
    by (simp only: add_pred_div_eq_ceiling [of 1000 "unat ms * 100"] zero_less_numeral)
  then show "int (unat (MS2ST ms)) = \<lceil>real (unat ms) * 100 / 1000\<rceil>"
    by simp
next
  assume "unat us * 100 + 999999 < 2 ^ 32"
  then have "unat (US2ST us) = (unat us * 100 + (1000000 - 1)) div 1000000"
    by (simp add: US2ST_exact)
  then have "int (unat (US2ST us)) = \<lceil>real (unat us * 100) / real 1000000\<rceil>"
    by (simp only: add_pred_div_eq_ceiling [of 1000000 "unat us * 100"] zero_less_numeral)
  then show "int (unat (US2ST us)) = \<lceil>real (unat us) * 100 / 1000000\<rceil>"
    by simp
next
  show "MS2ST 1 = 1"
    by (simp add: MS2ST_def CH_CFG_ST_FREQUENCY_def)
qed

theorem forward_conversions_exact_ceiling_witness:
  "unat (3 :: uint32_t) * 100 < 2 ^ 32 \<and> unat (S2ST 3) = unat (3 :: uint32_t) * 100
   \<and> unat (15 :: uint32_t) * 100 + 999 < 2 ^ 32
   \<and> int (unat (MS2ST 15)) = \<lceil>real (unat (15 :: uint32_t)) * 100 / 1000\<rceil>
   \<and> unat (25000 :: uint32_t) * 100 + 999999 < 2 ^ 32
   \<and> int (unat (US2ST 25000)) = \<lceil>real (unat (25000 :: uint32_t)) * 100 / 1000000\<rceil>"
proof -
  have h1: "unat (3 :: uint32_t) * 100 < 2 ^ 32" by simp
  have h2: "unat (15 :: uint32_t) * 100 + 999 < 2 ^ 32" by simp
  have h3: "unat (25000 :: uint32_t) * 100 + 999999 < 2 ^ 32" by simp
  from h1 h2 h3 forward_conversions_exact_ceiling [of 3 15 25000]
  show ?thesis by (simp only: simp_thms)
qed

subsection \<open>Reverse conversions\<close>

text \<open>
  C3: for every tick count \<open>n\<close> whose intermediate results fit in 32 bits, the reverse
  conversions round up as the forward ones do: \<open>ST2S(n) = ceil(n / 100)\<close>,
  \<open>ST2MS(n) = ceil(n * 1000 / 100)\<close> and \<open>ST2US(n) = ceil(n * 1000000 / 100)\<close>.
\<close>

theorem reverse_conversions_exact_ceiling:
  "(unat n + 99 < 2 ^ 32 \<longrightarrow> int (unat (ST2S n)) = \<lceil>real (unat n) / 100\<rceil>)
   \<and> (unat n * 1000 + 99 < 2 ^ 32 \<longrightarrow>
        int (unat (ST2MS n)) = \<lceil>real (unat n) * 1000 / 100\<rceil>)
   \<and> (unat n * 1000000 + 99 < 2 ^ 32 \<longrightarrow>
        int (unat (ST2US n)) = \<lceil>real (unat n) * 1000000 / 100\<rceil>)"
proof (intro conjI impI)
  assume "unat n + 99 < 2 ^ 32"
  then have "unat (ST2S n) = (unat n + (100 - 1)) div 100"
    by (simp add: ST2S_exact)
  then have "int (unat (ST2S n)) = \<lceil>real (unat n) / real 100\<rceil>"
    by (simp only: add_pred_div_eq_ceiling [of 100 "unat n"] zero_less_numeral)
  then show "int (unat (ST2S n)) = \<lceil>real (unat n) / 100\<rceil>"
    by simp
next
  assume "unat n * 1000 + 99 < 2 ^ 32"
  then have "unat (ST2MS n) = (unat n * 1000 + (100 - 1)) div 100"
    by (simp add: ST2MS_exact)
  then have "int (unat (ST2MS n)) = \<lceil>real (unat n * 1000) / real 100\<rceil>"
    by (simp only: add_pred_div_eq_ceiling [of 100 "unat n * 1000"] zero_less_numeral)
  then show "int (unat (ST2MS n)) = \<lceil>real (unat n) * 1000 / 100\<rceil>"
    by simp
next
  assume "unat n * 1000000 + 99 < 2 ^ 32"
  then have "unat (ST2US n) = (unat n * 1000000 + (100 - 1)) div 100"
    by (simp add: ST2US_exact)
  then have "int (unat (ST2US n)) = \<lceil>real (unat n * 1000000) / real 100\<rceil>"
    by (simp only: add_pred_div_eq_ceiling [of 100 "unat n * 1000000"] zero_less_numeral)
  then show "int (unat (ST2US n)) = \<lceil>real (unat n) * 1000000 / 100\<rceil>"
    by simp
qed

theorem reverse_conversions_exact_ceiling_witness:
  "unat (250 :: systime_t) + 99 < 2 ^ 32
   \<and> int (unat (ST2S 250)) = \<lceil>real (unat (250 :: systime_t)) / 100\<rceil>
   \<and> unat (250 :: systime_t) * 1000 + 99 < 2 ^ 32
   \<and> int (unat (ST2MS 250)) = \<lceil>real (unat (250 :: systime_t)) * 1000 / 100\<rceil>
   \<and> unat (250 :: systime_t) * 1000000 + 99 < 2 ^ 32
   \<and> int (unat (ST2US 250)) = \<lceil>real (unat (250 :: systime_t)) * 1000000 / 100\<rceil>"
proof -
  have h1: "unat (250 :: systime_t) + 99 < 2 ^ 32" by simp
  have h2: "unat (250 :: systime_t) * 1000 + 99 < 2 ^ 32" by simp
  have h3: "unat (250 :: systime_t) * 1000000 + 99 < 2 ^ 32" by simp
  from h1 h2 h3 reverse_conversions_exact_ceiling [of 250]
  show ?thesis by (simp only: simp_thms)
qed

subsection \<open>Concrete value and the frequency constant\<close>

text \<open>
  C4: at the tick frequency of 100 Hz, \<open>MS2ST(15)\<close> is exactly 2 ticks.
\<close>

theorem MS2ST_15_is_2_ticks:
  "CH_CFG_ST_FREQUENCY = 100 \<and> MS2ST 15 = 2"
  by (simp add: MS2ST_def CH_CFG_ST_FREQUENCY_def)

text \<open>
  C7: the tick frequency constant is 100, and each of the six conversion macros has it
  as its frequency factor: unfolding the constant leaves the macro bodies with the
  literal 100 in the place of the frequency.
\<close>

theorem tick_frequency_100_in_all_macros:
  "CH_CFG_ST_FREQUENCY = 100
   \<and> S2ST x = x * 100
   \<and> MS2ST x = (x * 100 + 999) div 1000
   \<and> US2ST x = (x * 100 + 999999) div 1000000
   \<and> ST2S n = (n + 100 - 1) div 100
   \<and> ST2MS n = (n * 1000 + 100 - 1) div 100
   \<and> ST2US n = (n * 1000000 + 100 - 1) div 100"
  by (simp add: CH_CFG_ST_FREQUENCY_def S2ST_def MS2ST_def US2ST_def ST2S_def ST2MS_def
      ST2US_def)

subsection \<open>Round trips\<close>

text \<open>
  C9, as stated: for every \<open>sec\<close> with \<open>sec * 100 < 2 ^ 32\<close>,
  \<open>ST2S(S2ST(sec)) = sec\<close>. This fails at the last such value, \<open>sec = 42949672\<close>:
  the tick count 4294967200 fits, but \<open>ST2S\<close> adds 99 to it before dividing and
  the sum wraps to 3, so the result is 0.
\<close>

theorem seconds_round_trip_fails_at_42949672:
  "unat (42949672 :: uint32_t) * 100 < 2 ^ 32 \<and> ST2S (S2ST 42949672) \<noteq> 42949672"
  by (simp add: ST2S_def S2ST_def CH_CFG_ST_FREQUENCY_def)

text \<open>
  C9, amended: for every \<open>sec\<close> with \<open>sec * 100 + 99 < 2 ^ 32\<close>, that is
  \<open>sec \<le> 42949671\<close>, the seconds round trip is the identity:
  \<open>ST2S(S2ST(sec)) = sec\<close>.
\<close>

theorem seconds_round_trip_identity:
  assumes "unat sec * 100 + 99 < 2 ^ 32"
  shows "ST2S (S2ST sec) = sec"
proof -
  from assms have "unat sec * 100 < 2 ^ 32" by linarith
  then have s: "unat (S2ST sec) = unat sec * 100"
    by (rule S2ST_exact)
  with assms have "unat (S2ST sec) + 99 < 2 ^ 32" by (simp only:)
  then have "unat (ST2S (S2ST sec)) = (unat (S2ST sec) + 99) div 100"
    by (rule ST2S_exact)
  also have "\<dots> = (unat sec * 100 + 99) div 100" by (simp only: s)
  also have "\<dots> = unat sec" by linarith
  finally show ?thesis by (simp only: word_unat_eq_iff)
qed

theorem seconds_round_trip_identity_witness:
  "unat (42949671 :: uint32_t) * 100 + 99 < 2 ^ 32 \<and> ST2S (S2ST 42949671) = 42949671"
proof -
  have h: "unat (42949671 :: uint32_t) * 100 + 99 < 2 ^ 32" by simp
  from h seconds_round_trip_identity [OF h] show ?thesis by (rule conjI)
qed

text \<open>
  C10: for every tick count \<open>n\<close> with \<open>n * 1000 < 2 ^ 32\<close>, \<open>ST2MS(n) = 10 * n\<close>
  exactly, both as a number and as a 32-bit word: the rounding term never carries.
\<close>

theorem ST2MS_is_ten_times:
  assumes "unat n * 1000 < 2 ^ 32"
  shows "unat (ST2MS n) = 10 * unat n \<and> ST2MS n = 10 * n"
proof -
  have p: "(2::nat) ^ 32 = 4294967296" by simp
  from assms have "unat n \<le> 4294967" unfolding p by linarith
  then have r: "unat n * 1000 + 99 < 2 ^ 32" unfolding p by linarith
  then have u: "unat (ST2MS n) = (unat n * 1000 + 99) div 100"
    by (rule ST2MS_exact)
  also have "\<dots> = 10 * unat n" by linarith
  finally have a: "unat (ST2MS n) = 10 * unat n" .
  from assms have "10 * unat n < 2 ^ 32" by linarith
  then have "unat (10 * n) = 10 * unat n"
    by (simp add: unat_word_ariths)
  with a have "unat (ST2MS n) = unat (10 * n)" by (simp only:)
  then have "ST2MS n = 10 * n" by (simp only: word_unat_eq_iff)
  with a show ?thesis by (simp only: simp_thms)
qed

theorem ST2MS_is_ten_times_witness:
  "unat (4294967 :: systime_t) * 1000 < 2 ^ 32
   \<and> unat (ST2MS 4294967) = 10 * unat (4294967 :: systime_t)
   \<and> ST2MS 4294967 = 10 * 4294967"
proof -
  have h: "unat (4294967 :: systime_t) * 1000 < 2 ^ 32" by simp
  from h ST2MS_is_ten_times [OF h] show ?thesis by (rule conjI)
qed

section \<open>Declared types\<close>

lemma uint32_values: "range (unat :: uint32_t \<Rightarrow> nat) = {0 .. 2 ^ 32 - 1}"
proof (rule set_eqI)
  fix n :: nat
  show "n \<in> range (unat :: uint32_t \<Rightarrow> nat) \<longleftrightarrow> n \<in> {0 .. 2 ^ 32 - 1}"
  proof
    assume "n \<in> range (unat :: uint32_t \<Rightarrow> nat)"
    then obtain w :: uint32_t where "n = unat w" by blast
    moreover have "unat w < 2 ^ LENGTH(32)" by (rule unsigned_less)
    ultimately show "n \<in> {0 .. 2 ^ 32 - 1}" by simp
  next
    assume "n \<in> {0 .. 2 ^ 32 - 1}"
    then have "n < 2 ^ LENGTH(32)" by simp
    with refl have "unat (word_of_nat n :: uint32_t) = n" by (rule of_nat_inverse)
    then show "n \<in> range (unat :: uint32_t \<Rightarrow> nat)" by (metis rangeI)
  qed
qed

lemma uint32_add_mult_wrap:
  "unat ((a :: uint32_t) + b) = (unat a + unat b) mod 2 ^ 32"
  "unat (a * b) = (unat a * unat b) mod 2 ^ 32"
  by (simp_all add: unat_word_ariths)

lemma uint32_sub_wrap: "unat ((a :: uint32_t) - b) = (unat a + 2 ^ 32 - unat b) mod 2 ^ 32"
proof -
  have "unat a < 2 ^ LENGTH(32)" "unat b < 2 ^ LENGTH(32)"
    by (rule unsigned_less)+
  then have A: "unat a < 4294967296" "unat b < 4294967296" by simp_all
  show ?thesis
  proof (cases "unat b \<le> unat a")
    case True
    then have "b \<le> a" by (simp only: word_le_nat_alt)
    then have "unat (a - b) = unat a - unat b" by (rule unat_sub)
    moreover from True A have "(unat a + 4294967296 - unat b) mod 4294967296 = unat a - unat b"
      by (simp add: mod_if)
    ultimately show ?thesis by simp
  next
    case False
    then have "unat (a - b) = unat a + 4294967296 - unat b"
      by (simp add: unat_sub_if')
    moreover from False A have "(unat a + 4294967296 - unat b) mod 4294967296
      = unat a + 4294967296 - unat b"
      by simp
    ultimately show ?thesis by simp
  qed
qed

text \<open>
  C6: \<^verbatim>\<open>thread_t\<close> is a descriptor of exactly 64 bytes: \<open>sizeof(thread_t) = 64\<close>.
\<close>

theorem sizeof_thread_t_is_64:
  "map_option sizeof (map_of header_typedefs ''thread_t'') = Some 64"
  by (simp add: header_typedefs_def round_up_def)

text \<open>
  C8: \<^verbatim>\<open>tprio_t\<close>, \<^verbatim>\<open>msg_t\<close> and \<^verbatim>\<open>systime_t\<close> are each declared as the unsigned
  32-bit integer type; the values of each are exactly the numbers from 0 to
  \<open>2 ^ 32 - 1\<close>, and sums, differences and products of each wrap modulo \<open>2 ^ 32\<close>.
\<close>

theorem integer_aliases_are_uint32:
  "map_of header_typedefs ''tprio_t'' = Some (UInt 32)
   \<and> map_of header_typedefs ''msg_t'' = Some (UInt 32)
   \<and> map_of header_typedefs ''systime_t'' = Some (UInt 32)
   \<and> value_range (UInt 32) = Some (0, 2 ^ 32 - 1)
   \<and> range (unat :: tprio_t \<Rightarrow> nat) = {0 .. 2 ^ 32 - 1}
   \<and> range (unat :: msg_t \<Rightarrow> nat) = {0 .. 2 ^ 32 - 1}
   \<and> range (unat :: systime_t \<Rightarrow> nat) = {0 .. 2 ^ 32 - 1}
   \<and> unat ((p :: tprio_t) + p') = (unat p + unat p') mod 2 ^ 32
   \<and> unat (p - p') = (unat p + 2 ^ 32 - unat p') mod 2 ^ 32
   \<and> unat (p * p') = (unat p * unat p') mod 2 ^ 32
   \<and> unat ((m :: msg_t) + m') = (unat m + unat m') mod 2 ^ 32
   \<and> unat (m - m') = (unat m + 2 ^ 32 - unat m') mod 2 ^ 32
   \<and> unat (m * m') = (unat m * unat m') mod 2 ^ 32
   \<and> unat ((t :: systime_t) + t') = (unat t + unat t') mod 2 ^ 32
   \<and> unat (t - t') = (unat t + 2 ^ 32 - unat t') mod 2 ^ 32
   \<and> unat (t * t') = (unat t * unat t') mod 2 ^ 32"
proof -
  have "map_of header_typedefs ''tprio_t'' = Some (UInt 32)"
    "map_of header_typedefs ''msg_t'' = Some (UInt 32)"
    "map_of header_typedefs ''systime_t'' = Some (UInt 32)"
    by (simp_all add: header_typedefs_def)
  moreover have "value_range (UInt 32) = Some (0, 2 ^ 32 - 1)"
    by simp
  ultimately show ?thesis
    by (simp only: uint32_values uint32_add_mult_wrap uint32_sub_wrap simp_thms)
qed

section \<open>Order of the timer queue\<close>

subsection \<open>Where insertion and removal put the other timers\<close>

text \<open>
  The order in which two timers \<open>a\<close> and \<open>b\<close> stand in a sequence of timer
  references is read off by filtering the sequence for the two. Service calls on other
  timers leave it as it is.
\<close>

lemma vt_insert_others:
  "vtp \<noteq> a \<Longrightarrow> vtp \<noteq> b \<Longrightarrow>
     filter (\<lambda>x. x = a \<or> x = b) (map fst (vt_insert vtp delay vtfunc par q))
       = filter (\<lambda>x. x = a \<or> x = b) (map fst q)"
  by (induction q arbitrary: delay) auto

lemma vt_remove_others:
  "vtp \<noteq> a \<Longrightarrow> vtp \<noteq> b \<Longrightarrow>
     filter (\<lambda>x. x = a \<or> x = b) (map fst (vt_remove vtp q))
       = filter (\<lambda>x. x = a \<or> x = b) (map fst q)"
  by (induction vtp q rule: vt_remove.induct) auto

lemma vt_remove_absent:
  "vtp \<notin> fst ` set q \<Longrightarrow> vt_remove vtp q = q"
  by (induction vtp q rule: vt_remove.induct) auto

lemma vt_insert_new_only:
  "P vtp \<Longrightarrow> \<forall>x \<in> fst ` set q. \<not> P x \<Longrightarrow>
     filter P (map fst (vt_insert vtp delay vtfunc par q)) = [vtp]"
  by (induction q arbitrary: delay) auto

text \<open>
  The walk passes every timer that is due no later than the new one, so a timer due at
  the same tick or earlier ends up ahead of the new one.
\<close>

lemma vt_insert_after:
  assumes "vt_remaining a q = Some r" and "r \<le> unat delay"
    and "distinct (map fst q)" and "b \<notin> fst ` set q" and "a \<noteq> b"
  shows "filter (\<lambda>x. x = a \<or> x = b) (map fst (vt_insert b delay vtfunc par q)) = [a, b]"
  using assms
proof (induction q arbitrary: delay r)
  case Nil
  then show ?case by simp
next
  case (Cons e q)
  obtain p u where e: "e = (p, u)" by (cases e)
  show ?case
  proof (cases "p = a")
    case True
    with Cons.prems e have le: "vt_delta u \<le> delay"
      by (simp add: word_le_nat_alt)
    from Cons.prems e True have "\<forall>x \<in> fst ` set q. \<not> (x = a \<or> x = b)"
      by auto
    then have "filter (\<lambda>x. x = a \<or> x = b)
        (map fst (vt_insert b (delay - vt_delta u) vtfunc par q)) = [b]"
      by (intro vt_insert_new_only) simp_all
    with le e True show ?thesis by simp
  next
    case False
    with Cons.prems e obtain r' where r': "vt_remaining a q = Some r'"
      and r: "r = unat (vt_delta u) + r'"
      by auto
    with Cons.prems have le: "vt_delta u \<le> delay"
      by (simp add: word_le_nat_alt)
    then have "unat (delay - vt_delta u) = unat delay - unat (vt_delta u)"
      by (rule unat_sub)
    with r Cons.prems have "r' \<le> unat (delay - vt_delta u)"
      by simp
    with r' Cons.prems e have "filter (\<lambda>x. x = a \<or> x = b)
        (map fst (vt_insert b (delay - vt_delta u) vtfunc par q)) = [a, b]"
      by (intro Cons.IH) auto
    moreover from Cons.prems e have "p \<noteq> b" by auto
    ultimately show ?thesis using le e False by simp
  qed
qed


text \<open>A newly armed timer is due after exactly its delay.\<close>

lemma vt_insert_remaining:
  "vt_remaining b (vt_insert b delay vtfunc par q) = Some (unat delay)" if "b \<notin> fst ` set q"
  using that
proof (induction q arbitrary: delay)
  case Nil
  then show ?case by simp
next
  case (Cons e q)
  obtain p u where e: "e = (p, u)" by (cases e)
  with Cons.prems have ne: "p \<noteq> b" and "b \<notin> fst ` set q" by auto
  then have IH: "vt_remaining b (vt_insert b (delay - vt_delta u) vtfunc par q)
      = Some (unat (delay - vt_delta u))"
    by (intro Cons.IH)
  show ?case
  proof (cases "vt_delta u \<le> delay")
    case True
    then have "unat (delay - vt_delta u) = unat delay - unat (vt_delta u)"
      by (rule unat_sub)
    moreover from True have "unat (vt_delta u) \<le> unat delay"
      by (simp add: word_le_nat_alt)
    ultimately show ?thesis using e ne IH True by simp
  next
    case False
    then show ?thesis using e by simp
  qed
qed

subsection \<open>Firing takes timers off the head\<close>

text \<open>
  A tick moves timers from the head of the queue to the end of the record of invoked
  callbacks and changes nothing else about the order: the timers fired so far, followed by
  the timers still armed, are the same sequence before and after.
\<close>

lemma vt_fire_log:
  "\<exists>new. fired (vt_fire k q) = fired k @ new
     \<and> map fst new @ map fst (vtlist (vt_fire k q)) = map fst q"
proof (induction q arbitrary: k)
  case Nil
  then show ?case by simp
next
  case (Cons e q)
  obtain p u where e: "e = (p, u)" by (cases e)
  show ?case
  proof (cases "vt_delta u = 0")
    case True
    define k' where "k' = k\<lparr>fired := fired k @ [(p, vt_func u, vt_par u)]\<rparr>"
    from Cons.IH [of k'] obtain new where
      "fired (vt_fire k' q) = fired k' @ new"
      "map fst new @ map fst (vtlist (vt_fire k' q)) = map fst q"
      by blast
    then have "fired (vt_fire k (e # q)) = fired k @ ((p, vt_func u, vt_par u) # new)
      \<and> map fst ((p, vt_func u, vt_par u) # new) @ map fst (vtlist (vt_fire k (e # q)))
          = map fst (e # q)"
      using True e by (simp add: k'_def)
    then show ?thesis by blast
  next
    case False
    then show ?thesis using e by simp
  qed
qed

lemma tick_log:
  "\<exists>new. fired (tick k) = fired k @ new
     \<and> map fst new @ map fst (vtlist (tick k)) = map fst (vtlist k)"
proof (cases "vtlist k")
  case Nil
  then show ?thesis by (simp add: tick_def)
next
  case (Cons e rest)
  obtain p u where e: "e = (p, u)" by (cases e)
  from vt_fire_log [of k "(p, u\<lparr>vt_delta := vt_delta u - 1\<rparr>) # rest"]
  show ?thesis using Cons e by (simp add: tick_def)
qed

lemma step_keeps_order:
  assumes "\<not> operates_on a e" and "\<not> operates_on b e"
    and "fired k = base @ new"
    and "filter (\<lambda>x. x = a \<or> x = b) (map fst new @ map fst (vtlist k)) = [a, b]"
  shows "\<exists>new'. fired (step e k) = base @ new'
    \<and> filter (\<lambda>x. x = a \<or> x = b) (map fst new' @ map fst (vtlist (step e k))) = [a, b]"
proof (cases e)
  case Tick
  from tick_log [of k] obtain more where
    m: "fired (tick k) = fired k @ more"
      "map fst more @ map fst (vtlist (tick k)) = map fst (vtlist k)"
    by blast
  have "map fst (new @ more) @ map fst (vtlist (tick k)) = map fst new @ map fst (vtlist k)"
    using m(2) by simp
  with assms(3,4) m(1) have "fired (tick k) = base @ (new @ more)
    \<and> filter (\<lambda>x. x = a \<or> x = b) (map fst (new @ more) @ map fst (vtlist (tick k))) = [a, b]"
    by (simp only: append_assoc simp_thms)
  then show ?thesis using Tick by (simp only: step.simps) blast
next
  case (SetTimer vtp delay vtfunc par)
  with assms(1,2) have "vtp \<noteq> a" "vtp \<noteq> b" by simp_all
  then have "filter (\<lambda>x. x = a \<or> x = b)
      (map fst (vt_insert vtp delay vtfunc par (vt_remove vtp (vtlist k))))
    = filter (\<lambda>x. x = a \<or> x = b) (map fst (vtlist k))"
    by (simp add: vt_insert_others vt_remove_others)
  with assms(3,4) SetTimer show ?thesis
    by (simp add: setTimer_def)
next
  case (ResetTimer vtp)
  with assms(1,2) have "vtp \<noteq> a" "vtp \<noteq> b" by simp_all
  then have "filter (\<lambda>x. x = a \<or> x = b) (map fst (vt_remove vtp (vtlist k)))
    = filter (\<lambda>x. x = a \<or> x = b) (map fst (vtlist k))"
    by (simp add: vt_remove_others)
  with assms(3,4) ResetTimer show ?thesis
    by (simp add: resetTimer_def)
qed

lemma run_keeps_order:
  assumes "list_all (\<lambda>e. \<not> operates_on a e \<and> \<not> operates_on b e) es"
    and "fired k = base @ new"
    and "filter (\<lambda>x. x = a \<or> x = b) (map fst new @ map fst (vtlist k)) = [a, b]"
  shows "\<exists>new'. fired (run es k) = base @ new'
    \<and> filter (\<lambda>x. x = a \<or> x = b) (map fst new' @ map fst (vtlist (run es k))) = [a, b]"
  using assms
proof (induction es arbitrary: k new)
  case Nil
  then show ?case by simp
next
  case (Cons e es)
  from Cons.prems have "\<not> operates_on a e" "\<not> operates_on b e" by simp_all
  from step_keeps_order [OF this Cons.prems(2,3)] obtain new' where
    "fired (step e k) = base @ new'"
    "filter (\<lambda>x. x = a \<or> x = b) (map fst new' @ map fst (vtlist (step e k))) = [a, b]"
    by blast
  moreover from Cons.prems have "list_all (\<lambda>e. \<not> operates_on a e \<and> \<not> operates_on b e) es"
    by simp
  ultimately show ?case
    using Cons.IH [of "step e k" new'] by simp
qed

text \<open>
  If \<open>a\<close> stands before \<open>b\<close> in the fired timers followed by the armed ones, then
  among the fired ones \<open>a\<close> comes before \<open>b\<close>.
\<close>

lemma ordered_pair_fires_before:
  assumes "filter (\<lambda>x. x = a \<or> x = b) (xs @ ys) = [a, b]" and "a \<noteq> b"
  shows "fires_before a b xs"
  using assms
proof (induction xs)
  case Nil
  then show ?case by (simp add: fires_before_def)
next
  case (Cons x xs)
  show ?case
  proof (cases "x = a")
    case True
    with Cons.prems show ?thesis by (simp add: fires_before_def)
  next
    case False
    with Cons.prems have "x \<noteq> b" by (auto split: if_splits)
    with False Cons show ?thesis by (simp add: fires_before_def)
  qed
qed

subsection \<open>A timer is linked at most once\<close>

text \<open>
  Removal takes the first link of a timer out of the sequence of linked timers and
  insertion puts one in; with \<^verbatim>\<open>setTimer\<close> detaching before it inserts, no history
  links a timer twice.
\<close>

lemma vt_remove_refs: "map fst (vt_remove vtp q) = remove1 vtp (map fst q)"
  by (induction vtp q rule: vt_remove.induct) simp_all

lemma vt_insert_refs:
  "\<exists>xs ys. map fst q = xs @ ys \<and> map fst (vt_insert vtp delay vtfunc par q) = xs @ vtp # ys"
proof (induction q arbitrary: delay)
  case Nil
  then show ?case by simp
next
  case (Cons e q)
  obtain p u where e: "e = (p, u)" by (cases e)
  show ?case
  proof (cases "vt_delta u \<le> delay")
    case True
    from Cons.IH [of "delay - vt_delta u"] obtain xs ys where
      "map fst q = xs @ ys"
      "map fst (vt_insert vtp (delay - vt_delta u) vtfunc par q) = xs @ vtp # ys"
      by blast
    with True e have "map fst (e # q) = (p # xs) @ ys
      \<and> map fst (vt_insert vtp delay vtfunc par (e # q)) = (p # xs) @ vtp # ys"
      by simp
    then show ?thesis by blast
  next
    case False
    with e have "map fst (e # q) = [] @ map fst (e # q)
      \<and> map fst (vt_insert vtp delay vtfunc par (e # q)) = [] @ vtp # map fst (e # q)"
      by simp
    then show ?thesis by blast
  qed
qed

lemma vt_insert_distinct:
  assumes "distinct (map fst q)" and "vtp \<notin> set (map fst q)"
  shows "distinct (map fst (vt_insert vtp delay vtfunc par q))"
proof -
  from vt_insert_refs [of q vtp delay vtfunc par] obtain xs ys where
    "map fst q = xs @ ys" "map fst (vt_insert vtp delay vtfunc par q) = xs @ vtp # ys"
    by blast
  with assms show ?thesis by auto
qed

lemma setTimer_distinct:
  assumes "distinct (map fst (vtlist k))"
  shows "distinct (map fst (vtlist (setTimer vtp delay vtfunc par k)))"
proof -
  from assms have "distinct (map fst (vt_remove vtp (vtlist k)))"
    "vtp \<notin> set (map fst (vt_remove vtp (vtlist k)))"
    by (simp_all add: vt_remove_refs)
  then have "distinct (map fst (vt_insert vtp delay vtfunc par (vt_remove vtp (vtlist k))))"
    by (rule vt_insert_distinct)
  then show ?thesis by (simp add: setTimer_def)
qed

lemma tick_distinct:
  assumes "distinct (map fst (vtlist k))"
  shows "distinct (map fst (vtlist (tick k)))"
proof -
  from tick_log [of k] obtain new :: "(vt_ref \<times> vtfunc_t \<times> void_ptr) list" where
    "map fst new @ map fst (vtlist (tick k)) = map fst (vtlist k)"
    by blast
  with assms have "distinct (map fst new @ map fst (vtlist (tick k)))"
    by simp
  then show ?thesis by simp
qed

lemma step_distinct:
  "distinct (map fst (vtlist k)) \<Longrightarrow> distinct (map fst (vtlist (step e k)))"
  by (cases e) (simp_all add: tick_distinct setTimer_distinct resetTimer_def vt_remove_refs)

lemma run_distinct:
  "distinct (map fst (vtlist k)) \<Longrightarrow> distinct (map fst (vtlist (run es k)))"
  by (induction es arbitrary: k) (simp_all add: step_distinct)

subsection \<open>Timers with equal deadlines\<close>

text \<open>
  C5: for any two timers A and B armed via \<^verbatim>\<open>setTimer\<close> with equal absolute deadlines,
  with A inserted before B, the tick advance fires A's callback before B's callback.
  Here \<open>a\<close> is armed in any queue \<open>k\<close> of distinct timers and due in as many ticks
  as the \<open>delay\<close> with which \<open>b\<close>, not armed in \<open>k\<close>, is then armed; whatever ticks
  and service calls on other timers follow, among the callbacks invoked since then
  \<open>b\<close>'s is never invoked unless \<open>a\<close>'s has been invoked before it. Neither timer
  is lost on the way: in the timers fired since then, followed by the timers still
  armed, \<open>a\<close> and \<open>b\<close> each occur once, \<open>a\<close> first.
\<close>

theorem equal_deadline_timers_fire_in_insertion_order:
  assumes "distinct (map fst (vtlist k))"
    and "vt_remaining a (vtlist k) = Some (unat delay)"
    and "b \<notin> fst ` set (vtlist k)"
    and "a \<noteq> b"
    and "list_all (\<lambda>e. \<not> operates_on a e \<and> \<not> operates_on b e) es"
  shows "fires_before a b (fired_since k (run es (setTimer b delay vtfunc par k)))
    \<and> filter (\<lambda>x. x = a \<or> x = b)
          (fired_since k (run es (setTimer b delay vtfunc par k))
             @ map fst (vtlist (run es (setTimer b delay vtfunc par k)))) = [a, b]"
proof -
  define k0 where "k0 = setTimer b delay vtfunc par k"
  from assms(3) have "vt_remove b (vtlist k) = vtlist k"
    by (rule vt_remove_absent)
  then have q0: "vtlist k0 = vt_insert b delay vtfunc par (vtlist k)"
    by (simp add: k0_def setTimer_def)
  have "filter (\<lambda>x. x = a \<or> x = b) (map fst (vtlist k0)) = [a, b]"
    unfolding q0 using assms(2) order_refl assms(1,3,4) by (rule vt_insert_after)
  then have "filter (\<lambda>x. x = a \<or> x = b) (map fst [] @ map fst (vtlist k0)) = [a, b]"
    by simp
  moreover have "fired k0 = fired k @ []"
    by (simp add: k0_def setTimer_def)
  ultimately obtain new where new: "fired (run es k0) = fired k @ new"
    and ord: "filter (\<lambda>x. x = a \<or> x = b) (map fst new @ map fst (vtlist (run es k0))) = [a, b]"
    using run_keeps_order [OF assms(5), of k0 "fired k" "[]"] by blast
  from ord assms(4) have "fires_before a b (map fst new)"
    by (rule ordered_pair_fires_before)
  moreover from new have "fired_since k (run es k0) = map fst new"
    by (simp add: fired_since_def)
  ultimately show ?thesis using ord by (simp add: k0_def)
qed

theorem equal_deadline_timers_fire_in_insertion_order_witness:
  "distinct (map fst (vtlist two_armed))
   \<and> vt_remaining 1 (vtlist two_armed) = Some (unat (3 :: systime_t))
   \<and> 2 \<notin> fst ` set (vtlist two_armed)
   \<and> (1 :: vt_ref) \<noteq> 2
   \<and> list_all (\<lambda>e. \<not> operates_on 1 e \<and> \<not> operates_on 2 e)
        [SetTimer 3 3 30 300, Tick, Tick, Tick]
   \<and> fires_before 1 2 (fired_since two_armed
        (run [SetTimer 3 3 30 300, Tick, Tick, Tick] (setTimer 2 3 20 200 two_armed)))
   \<and> fired_since two_armed
        (run [SetTimer 3 3 30 300, Tick, Tick, Tick] (setTimer 2 3 20 200 two_armed))
       = [7, 1, 2, 3]"
proof -
  have h1: "distinct (map fst (vtlist two_armed))"
    by (simp add: two_armed_def)
  have h2: "vt_remaining 1 (vtlist two_armed) = Some (unat (3 :: systime_t))"
    by (simp add: two_armed_def)
  have h3: "2 \<notin> fst ` set (vtlist two_armed)"
    by (simp add: two_armed_def)
  have h4: "(1 :: vt_ref) \<noteq> 2"
    by simp
  have h5: "list_all (\<lambda>e. \<not> operates_on 1 e \<and> \<not> operates_on 2 e)
      [SetTimer 3 3 30 300, Tick, Tick, Tick]"
    by simp
  have ord: "fires_before 1 2 (fired_since two_armed
      (run [SetTimer 3 3 30 300, Tick, Tick, Tick] (setTimer 2 3 20 200 two_armed)))"
    using equal_deadline_timers_fire_in_insertion_order [OF h1 h2 h3 h4 h5] by (rule conjunct1)
  have tr: "fired_since two_armed
      (run [SetTimer 3 3 30 300, Tick, Tick, Tick] (setTimer 2 3 20 200 two_armed))
        = [7, 1, 2, 3]"
    by (simp add: two_armed_def fired_since_def setTimer_def tick_def)
  from h1 h2 h3 h4 h5 ord tr show ?thesis
    by (intro conjI)
qed

end
